theory Spec2Isabelle
  imports Main "HOL-Library.Word"
begin

section \<open>Data model (main.go, lines 11--26)\<close>

text \<open>
  Go's \<^verbatim>\<open>int\<close> is a signed machine integer of 32 or 64 bits, depending on the target.
  It is modelled as \<open>'w word\<close>, for any width \<open>LENGTH('w)\<close>: \<open>+\<close> wraps around as
  \<^verbatim>\<open>nextID++\<close> does, \<open>sint\<close> reads the signed value and \<open><s\<close> is the signed order.
  The records take the integer type as a parameter \<open>'i\<close>, which every function below
  instantiates with \<open>'w word\<close>.
\<close>

record 'i Todo =
  ID :: 'i
  Title :: string
  Done :: bool

record CreateTodoRequest =
  req_Title :: string

text \<open>
  The package-level variables \<^verbatim>\<open>todos\<close> and \<^verbatim>\<open>nextID\<close>. The mutex \<^verbatim>\<open>mu\<close> is not part
  of the state: every handler holds it from before its first access to the store until it
  returns, so each handler below is one atomic step on the store.
\<close>

record 'i store =
  todos :: "'i \<rightharpoonup> 'i Todo"
  nextID :: 'i

definition initial :: "'w::len word store" where
  "initial = \<lparr>todos = Map.empty, nextID = 1\<rparr>"

section \<open>Library functions used by the handlers\<close>

subsection \<open>strconv\<close>

text \<open>A decimal digit, as \<^verbatim>\<open>ch -= '0'; if ch > 9\<close> tests it.\<close>

definition digit_val :: "char \<Rightarrow> nat option" where
  "digit_val c =
     (let n = (of_char c :: nat)
      in if 48 \<le> n \<and> n \<le> 57 then Some (n - 48) else None)"

fun parse_digits :: "string \<Rightarrow> nat \<Rightarrow> nat option" where
  "parse_digits [] acc = Some acc"
| "parse_digits (c # cs) acc =
     (case digit_val c of
        None \<Rightarrow> None
      | Some d \<Rightarrow> parse_digits cs (10 * acc + d))"

text \<open>
  \<^verbatim>\<open>strconv.Atoi\<close>: an optional sign, then one or more decimal digits and nothing else;
  a value outside the range of \<^verbatim>\<open>int\<close> is an error as well. \<open>None\<close> is \<^verbatim>\<open>err != nil\<close>.
\<close>

definition Atoi :: "string \<Rightarrow> 'w::len word option" where
  "Atoi s =
     (let (neg, ds) =
        (case s of
           [] \<Rightarrow> (False, s)
         | c # cs \<Rightarrow>
             if c = CHR ''-'' then (True, cs)
             else if c = CHR ''+'' then (False, cs)
             else (False, s))
      in if ds = [] then None
         else case parse_digits ds 0 of
                None \<Rightarrow> None
              | Some n \<Rightarrow>
                  let v = (if neg then - int n else int n)
                  in if v < - (2 ^ (LENGTH('w) - 1)) \<or> 2 ^ (LENGTH('w) - 1) \<le> v
                     then None
                     else Some (word_of_int v))"

definition digit_char :: "nat \<Rightarrow> char" where
  "digit_char d = ''0123456789'' ! (d mod 10)"

fun decimal :: "nat \<Rightarrow> string" where
  "decimal n =
     (if n < 10 then [digit_char n] else decimal (n div 10) @ [digit_char (n mod 10)])"

declare decimal.simps [simp del]

text \<open>\<^verbatim>\<open>strconv.Itoa\<close>, which is how \<^verbatim>\<open>encoding/json\<close> writes an integer map key.\<close>

definition Itoa :: "int \<Rightarrow> string" where
  "Itoa i = (if i < 0 then CHR ''-'' # decimal (nat (- i)) else decimal (nat i))"

subsection \<open>encoding/json\<close>

text \<open>
  Response bodies are JSON values, as a client parses them; the bytes (white space, the
  order of an object's members, the line feed that \<^verbatim>\<open>Encoder.Encode\<close> appends) are not
  modelled. An object is a partial map from member names to values.
\<close>

datatype json =
    JNull
  | JBool bool
  | JNumber int
  | JString string
  | JArray "json list"
  | JObject "string \<Rightarrow> json option"

text \<open>A \<^verbatim>\<open>Todo\<close> is encoded through its struct tags \<^verbatim>\<open>id\<close>, \<^verbatim>\<open>title\<close> and \<^verbatim>\<open>done\<close>.\<close>

definition todo_json :: "'w::len word Todo \<Rightarrow> json" where
  "todo_json t =
     JObject [''id'' \<mapsto> JNumber (sint (ID t)),
              ''title'' \<mapsto> JString (Title t),
              ''done'' \<mapsto> JBool (Done t)]"

text \<open>
  A \<^verbatim>\<open>map[int]Todo\<close> is encoded as an object with one member for each key, named by the
  key in decimal. The member called \<open>name\<close> is found by reading \<open>name\<close> back as an integer.
\<close>

definition todos_json :: "('w::len word \<rightharpoonup> 'w word Todo) \<Rightarrow> json" where
  "todos_json m =
     JObject (\<lambda>name.
       case Atoi name of
         None \<Rightarrow> None
       | Some k \<Rightarrow> if Itoa (sint k) = name then map_option todo_json (m k) else None)"

text \<open>
  The request body, as \<^verbatim>\<open>json.NewDecoder(r.Body).Decode(&req)\<close> sees it for a target of
  type \<^verbatim>\<open>CreateTodoRequest\<close>: either decoding fails, or it succeeds and has found a string
  for the field \<^verbatim>\<open>title\<close>, or has found none. \<^verbatim>\<open>Decode\<close> assigns only the fields it finds.
\<close>

datatype body = Malformed | Decoded "string option"

definition Decode :: "body \<Rightarrow> CreateTodoRequest \<Rightarrow> CreateTodoRequest option" where
  "Decode b req =
     (case b of
        Malformed \<Rightarrow> None
      | Decoded None \<Rightarrow> Some req
      | Decoded (Some t) \<Rightarrow> Some (req\<lparr>req_Title := t\<rparr>))"

subsection \<open>net/http\<close>

text \<open>
  Of a request the handlers read the method, the query parameters (\<^verbatim>\<open>url.Values\<close>, a map
  from a name to the list of its values) and the body.
\<close>

record request =
  Method :: string
  Query :: "string \<Rightarrow> string list"
  Body :: body

definition Get :: "(string \<Rightarrow> string list) \<Rightarrow> string \<Rightarrow> string" where
  "Get v key = (case v key of [] \<Rightarrow> [] | x # _ \<Rightarrow> x)"

text \<open>
  What a handler leaves in its \<^verbatim>\<open>ResponseWriter\<close>: the status, the \<^verbatim>\<open>Content-Type\<close>
  header and the body written. The status of a response is 200 unless \<^verbatim>\<open>WriteHeader\<close>
  says otherwise.
\<close>

record response =
  status :: nat
  content_type :: "string option"
  resp_body :: "json option"

definition new_response :: response where
  "new_response = \<lparr>status = 200, content_type = None, resp_body = None\<rparr>"

definition WriteHeader :: "nat \<Rightarrow> response \<Rightarrow> response" where
  "WriteHeader code w = w\<lparr>status := code\<rparr>"

definition Header_Set :: "string \<Rightarrow> response \<Rightarrow> response" where
  "Header_Set v w = w\<lparr>content_type := Some v\<rparr>"

definition Encode :: "json \<Rightarrow> response \<Rightarrow> response" where
  "Encode v w = w\<lparr>resp_body := Some v\<rparr>"

abbreviation StatusBadRequest :: nat where "StatusBadRequest \<equiv> 400"
abbreviation StatusNotFound :: nat where "StatusNotFound \<equiv> 404"
abbreviation StatusMethodNotAllowed :: nat where "StatusMethodNotAllowed \<equiv> 405"
abbreviation StatusNoContent :: nat where "StatusNoContent \<equiv> 204"

abbreviation MethodPost :: string where "MethodPost \<equiv> ''POST''"
abbreviation MethodPut :: string where "MethodPut \<equiv> ''PUT''"
abbreviation MethodDelete :: string where "MethodDelete \<equiv> ''DELETE''"

section \<open>The store operations: what each handler does while it holds the lock\<close>

text \<open>\<^verbatim>\<open>getTodosHandler\<close>, line 40: the map as it is.\<close>

definition List_todos :: "'w::len word store \<Rightarrow> ('w word \<rightharpoonup> 'w word Todo)" where
  "List_todos s = todos s"

text \<open>\<^verbatim>\<open>createTodoHandler\<close>, lines 69--77.\<close>

definition Create :: "string \<Rightarrow> 'w::len word store \<Rightarrow> 'w word Todo \<times> 'w word store" where
  "Create title s =
     (let todo = \<lparr>ID = nextID s, Title = title, Done = False\<rparr>;
          s1 = s\<lparr>todos := (todos s)(nextID s \<mapsto> todo)\<rparr>;
          s2 = s1\<lparr>nextID := nextID s1 + 1\<rparr>
      in (todo, s2))"

text \<open>\<^verbatim>\<open>updateTodoHandler\<close>, lines 115--123; \<open>None\<close> is \<^verbatim>\<open>!exists\<close>.\<close>

definition MarkDone :: "'w::len word \<Rightarrow> 'w word store \<Rightarrow> 'w word Todo option \<times> 'w word store" where
  "MarkDone k s =
     (case todos s k of
        None \<Rightarrow> (None, s)
      | Some todo \<Rightarrow>
          let todo1 = todo\<lparr>Done := True\<rparr>
          in (Some todo1, s\<lparr>todos := (todos s)(k \<mapsto> todo1)\<rparr>))"

text \<open>\<^verbatim>\<open>deleteTodoHandler\<close>, lines 158--164; \<open>False\<close> is \<^verbatim>\<open>!exists\<close>.\<close>

definition Delete :: "'w::len word \<Rightarrow> 'w word store \<Rightarrow> bool \<times> 'w word store" where
  "Delete k s =
     (case todos s k of
        None \<Rightarrow> (False, s)
      | Some _ \<Rightarrow> (True, s\<lparr>todos := (todos s)(k := None)\<rparr>))"

section \<open>The handlers\<close>

definition getTodosHandler :: "request \<Rightarrow> 'w::len word store \<Rightarrow> response \<times> 'w word store" where
  "getTodosHandler r s =
     (let w = Header_Set ''application/json'' new_response
      in (Encode (todos_json (List_todos s)) w, s))"

definition createTodoHandler :: "request \<Rightarrow> 'w::len word store \<Rightarrow> response \<times> 'w word store" where
  "createTodoHandler r s =
     (if Method r \<noteq> MethodPost then (WriteHeader StatusMethodNotAllowed new_response, s)
      else
        let w = Header_Set ''application/json'' new_response
        in case Decode (Body r) \<lparr>req_Title = []\<rparr> of
             None \<Rightarrow> (WriteHeader StatusBadRequest w, s)
           | Some req \<Rightarrow>
               let (todo, s1) = Create (req_Title req) s
               in (Encode (todo_json todo) w, s1))"

definition updateTodoHandler :: "request \<Rightarrow> 'w::len word store \<Rightarrow> response \<times> 'w word store" where
  "updateTodoHandler r s =
     (if Method r \<noteq> MethodPut then (WriteHeader StatusMethodNotAllowed new_response, s)
      else
        let w = Header_Set ''application/json'' new_response;
            idStr = Get (Query r) ''id''
        in if idStr = [] then (WriteHeader StatusBadRequest w, s)
           else case Atoi idStr of
                  None \<Rightarrow> (WriteHeader StatusBadRequest w, s)
                | Some k \<Rightarrow>
                    (case MarkDone k s of
                       (None, s1) \<Rightarrow> (WriteHeader StatusNotFound w, s1)
                     | (Some todo, s1) \<Rightarrow> (Encode (todo_json todo) w, s1)))"

definition deleteTodoHandler :: "request \<Rightarrow> 'w::len word store \<Rightarrow> response \<times> 'w word store" where
  "deleteTodoHandler r s =
     (if Method r \<noteq> MethodDelete then (WriteHeader StatusMethodNotAllowed new_response, s)
      else
        let idStr = Get (Query r) ''id''
        in if idStr = [] then (WriteHeader StatusBadRequest new_response, s)
           else case Atoi idStr of
                  None \<Rightarrow> (WriteHeader StatusBadRequest new_response, s)
                | Some k \<Rightarrow>
                    (case Delete k s of
                       (False, s1) \<Rightarrow> (WriteHeader StatusNotFound new_response, s1)
                     | (True, s1) \<Rightarrow> (WriteHeader StatusNoContent new_response, s1)))"

text \<open>The routes registered in \<^verbatim>\<open>main\<close>, lines 174--177.\<close>

definition route :: "string \<Rightarrow> (request \<Rightarrow> 'w::len word store \<Rightarrow> response \<times> 'w word store) option" where
  "route path =
     (if path = ''/todos'' then Some getTodosHandler
      else if path = ''/todos/create'' then Some createTodoHandler
      else if path = ''/todos/update'' then Some updateTodoHandler
      else if path = ''/todos/delete'' then Some deleteTodoHandler
      else None)"

section \<open>Sequences of operations\<close>

text \<open>
  The four operations as calls, and what each returns. \<open>exec\<close> is one call on the
  store, \<open>run\<close> a sequence of calls in order, with the list of their replies.
\<close>

datatype 'i call = CallList | CallCreate string | CallMarkDone 'i | CallDelete 'i

datatype 'i reply =
    Listed "'i \<rightharpoonup> 'i Todo"
  | Created "'i Todo"
  | Updated "'i Todo"
  | Deleted
  | NotFound

definition exec :: "'w::len word call \<Rightarrow> 'w word store \<Rightarrow> 'w word reply \<times> 'w word store" where
  "exec c s =
     (case c of
        CallList \<Rightarrow> (Listed (List_todos s), s)
      | CallCreate title \<Rightarrow> (let (todo, s1) = Create title s in (Created todo, s1))
      | CallMarkDone k \<Rightarrow>
          (case MarkDone k s of
             (None, s1) \<Rightarrow> (NotFound, s1)
           | (Some todo, s1) \<Rightarrow> (Updated todo, s1))
      | CallDelete k \<Rightarrow>
          (case Delete k s of
             (False, s1) \<Rightarrow> (NotFound, s1)
           | (True, s1) \<Rightarrow> (Deleted, s1)))"

fun run :: "'w::len word call list \<Rightarrow> 'w word store \<Rightarrow> 'w word reply list \<times> 'w word store" where
  "run [] s = ([], s)"
| "run (c # cs) s =
     (let (r, s1) = exec c s;
          (rs, s2) = run cs s1
      in (r # rs, s2))"

text \<open>The ids that the \<open>Create\<close> calls of a run returned, in order.\<close>

fun issued :: "'i reply list \<Rightarrow> 'i list" where
  "issued [] = []"
| "issued (Created t # rs) = ID t # issued rs"
| "issued (_ # rs) = issued rs"

fun is_create :: "'i call \<Rightarrow> bool" where
  "is_create (CallCreate _) = True"
| "is_create _ = False"

definition creates :: "'i call list \<Rightarrow> nat" where
  "creates cs = length (filter is_create cs)"

text \<open>
  \<open>churn n k\<close> is \<open>n\<close> rounds of a \<open>Create\<close> followed by the \<open>Delete\<close> of the id it
  returns, for a store whose \<open>nextID\<close> is \<open>k\<close>: the counter advances and the map stays as
  small as it was.
\<close>

fun churn :: "nat \<Rightarrow> 'w::len word \<Rightarrow> 'w word call list" where
  "churn 0 k = []"
| "churn (Suc n) k = CallCreate [] # CallDelete k # churn n (k + 1)"

text \<open>The member of a JSON object with a given name.\<close>

fun object_member :: "json \<Rightarrow> string \<Rightarrow> json option" where
  "object_member (JObject f) name = f name"
| "object_member _ name = None"

section \<open>Lemmas on runs\<close>

lemma run_append:
  "run (cs1 @ cs2) s =
     (fst (run cs1 s) @ fst (run cs2 (snd (run cs1 s))), snd (run cs2 (snd (run cs1 s))))"
  by (induction cs1 arbitrary: s) (simp_all add: split_def Let_def)

lemma creates_simps [simp]:
  "creates [] = 0"
  "creates (CallCreate t # cs) = Suc (creates cs)"
  "creates (CallList # cs) = creates cs"
  "creates (CallMarkDone k # cs) = creates cs"
  "creates (CallDelete k # cs) = creates cs"
  "creates (cs1 @ cs2) = creates cs1 + creates cs2"
  by (simp_all add: creates_def)

lemma nextID_exec:
  "nextID (snd (exec c s)) = (if is_create c then nextID s + 1 else nextID s)"
  by (cases c) (simp_all add: exec_def Create_def MarkDone_def Delete_def Let_def split: option.splits)

lemma nextID_run:
  "nextID (snd (run cs s)) = nextID s + of_nat (creates cs)"
proof (induction cs arbitrary: s)
  case Nil
  show ?case by simp
next
  case (Cons c cs)
  show ?case
    by (cases c) (simp_all add: split_def Let_def Cons.IH nextID_exec)
qed

lemma issued_run:
  "issued (fst (run cs s)) = map (\<lambda>j. nextID s + of_nat j) [0..<creates cs]"
proof (induction cs arbitrary: s)
  case Nil
  show ?case by simp
next
  case (Cons c cs)
  show ?case
  proof (cases c)
    case (CallCreate t)
    have "[0..<Suc (creates cs)] = 0 # map Suc [0..<creates cs]"
      by (simp add: upt_conv_Cons map_Suc_upt del: upt_Suc)
    then show ?thesis using CallCreate
      by (simp add: split_def Let_def Cons.IH exec_def Create_def comp_def add.assoc del: upt_Suc)
  next
    case CallList
    then show ?thesis by (simp add: split_def Let_def Cons.IH exec_def List_todos_def)
  next
    case (CallMarkDone k)
    then show ?thesis
      by (simp add: split_def Let_def Cons.IH exec_def MarkDone_def split: option.splits)
  next
    case (CallDelete k)
    then show ?thesis
      by (simp add: split_def Let_def Cons.IH exec_def Delete_def split: option.splits)
  qed
qed

lemma sint_of_nat_small:
  "int n < 2 ^ (LENGTH('w::len) - 1) \<Longrightarrow> sint (of_nat n :: 'w word) = int n"
proof -
  assume a: "int n < 2 ^ (LENGTH('w) - 1)"
  have "sint (of_nat n :: 'w word) = sint (word_of_int (int n) :: 'w word)" by simp
  also have "\<dots> = signed_take_bit (LENGTH('w) - 1) (int n)" by (rule sint_sbintrunc')
  also have "\<dots> = int n"
  proof -
    have "- (2 ^ (LENGTH('w) - 1)) \<le> (0::int)" by simp
    also have "(0::int) \<le> int n" by simp
    finally show ?thesis using a by (simp add: signed_take_bit_int_eq_self_iff)
  qed
  finally show ?thesis .
qed

lemma of_nat_word_inj:
  "a < 2 ^ LENGTH('w::len) \<Longrightarrow> b < 2 ^ LENGTH('w) \<Longrightarrow> (of_nat a :: 'w word) = of_nat b \<Longrightarrow> a = b"
proof -
  assume a: "a < 2 ^ LENGTH('w)" and b: "b < 2 ^ LENGTH('w)" and e: "(of_nat a :: 'w word) = of_nat b"
  from e have "unat (of_nat a :: 'w word) = unat (of_nat b :: 'w word)" by simp
  then show "a = b" using a b by (simp add: unat_of_nat)
qed

lemma exec_keeps_done:
  assumes "is_create c \<longrightarrow> nextID s \<noteq> k" and "\<forall>t. todos s k = Some t \<longrightarrow> Done t"
  shows "\<forall>t. todos (snd (exec c s)) k = Some t \<longrightarrow> Done t"
  using assms
  by (cases c)
    (auto simp: exec_def Create_def MarkDone_def Delete_def List_todos_def Let_def
      split: option.splits if_splits)

lemma run_keeps_done:
  assumes "\<forall>j < creates cs. nextID s + of_nat j \<noteq> k" and "\<forall>t. todos s k = Some t \<longrightarrow> Done t"
  shows "\<forall>t. todos (snd (run cs s)) k = Some t \<longrightarrow> Done t"
  using assms
proof (induction cs arbitrary: s)
  case Nil
  then show ?case by simp
next
  case (Cons c cs)
  let ?s1 = "snd (exec c s)"
  have first: "is_create c \<longrightarrow> nextID s \<noteq> k"
  proof
    assume "is_create c"
    then have "0 < creates (c # cs)" by (cases c) simp_all
    with Cons.prems(1) have "nextID s + of_nat 0 \<noteq> k" by blast
    then show "nextID s \<noteq> k" by simp
  qed
  have d1: "\<forall>t. todos ?s1 k = Some t \<longrightarrow> Done t"
    using first Cons.prems(2) by (rule exec_keeps_done)
  have rest: "\<forall>j < creates cs. nextID ?s1 + of_nat j \<noteq> k"
  proof (intro allI impI)
    fix j assume j: "j < creates cs"
    show "nextID ?s1 + of_nat j \<noteq> k"
    proof (cases "is_create c")
      case True
      then have "Suc j < creates (c # cs)" using j by (cases c) simp_all
      with Cons.prems(1) have "nextID s + of_nat (Suc j) \<noteq> k" by blast
      then show ?thesis using True by (simp add: nextID_exec ac_simps)
    next
      case False
      then have "j < creates (c # cs)" using j by (cases c) simp_all
      with Cons.prems(1) have "nextID s + of_nat j \<noteq> k" by blast
      then show ?thesis using False by (simp add: nextID_exec)
    qed
  qed
  have "\<forall>t. todos (snd (run cs ?s1)) k = Some t \<longrightarrow> Done t"
    using rest d1 by (rule Cons.IH)
  then show ?case by (simp add: split_def Let_def)
qed

lemma exec_key_origin:
  assumes "todos (snd (exec c s)) k = Some t"
  shows "todos s k \<noteq> None \<or> (is_create c \<and> k = nextID s)"
  using assms
  by (cases c)
    (auto simp: exec_def Create_def MarkDone_def Delete_def List_todos_def Let_def
      split: option.splits if_splits)

lemma run_key_origin:
  assumes "todos (snd (run cs s)) k = Some t"
  shows "todos s k \<noteq> None \<or> (\<exists>j < creates cs. k = nextID s + of_nat j)"
  using assms
proof (induction cs arbitrary: s)
  case Nil
  then show ?case by simp
next
  case (Cons c cs)
  let ?s1 = "snd (exec c s)"
  from Cons.prems have "todos (snd (run cs ?s1)) k = Some t"
    by (simp add: split_def Let_def)
  then have "todos ?s1 k \<noteq> None \<or> (\<exists>j < creates cs. k = nextID ?s1 + of_nat j)"
    by (rule Cons.IH)
  then show ?case
  proof
    assume "todos ?s1 k \<noteq> None"
    then obtain u where "todos ?s1 k = Some u" by blast
    then have "todos s k \<noteq> None \<or> (is_create c \<and> k = nextID s)" by (rule exec_key_origin)
    then show ?thesis
    proof
      assume "todos s k \<noteq> None" then show ?thesis by blast
    next
      assume a: "is_create c \<and> k = nextID s"
      then have "0 < creates (c # cs)" by (cases c) simp_all
      moreover have "k = nextID s + of_nat 0" using a by simp
      ultimately show ?thesis by blast
    qed
  next
    assume "\<exists>j < creates cs. k = nextID ?s1 + of_nat j"
    then obtain j where j: "j < creates cs" and k: "k = nextID ?s1 + of_nat j" by blast
    show ?thesis
    proof (cases "is_create c")
      case True
      then have "Suc j < creates (c # cs)" using j by (cases c) simp_all
      moreover have "k = nextID s + of_nat (Suc j)"
        using k True by (simp add: nextID_exec ac_simps)
      ultimately show ?thesis by blast
    next
      case False
      then have "j < creates (c # cs)" using j by (cases c) simp_all
      moreover have "k = nextID s + of_nat j" using k False by (simp add: nextID_exec)
      ultimately show ?thesis by blast
    qed
  qed
qed

lemma of_nat_max_word: "(of_nat (2 ^ LENGTH('w::len) - 1) :: 'w word) = - 1"
proof -
  have "unat (of_nat (2 ^ LENGTH('w) - 1) :: 'w word) = unat (- 1 :: 'w word)"
    by (simp add: unat_of_nat unsigned_minus_1_eq_mask mask_eq_exp_minus_1)
  then show ?thesis by (simp only: word_unat_eq_iff)
qed

lemma creates_churn: "creates (churn n k) = n"
  by (induction n arbitrary: k) simp_all

lemma run_churn:
  "nextID s = k \<Longrightarrow> \<forall>j < n. todos s (k + of_nat j) = None \<Longrightarrow>
     snd (run (churn n k) s) = s\<lparr>nextID := k + of_nat n\<rparr>"
proof (induction n arbitrary: s k)
  case 0
  then show ?case by simp
next
  case (Suc n)
  let ?s2 = "s\<lparr>nextID := k + 1\<rparr>"
  have "todos s (k + of_nat 0) = None" using Suc.prems(2) by blast
  then have free: "todos s k = None" by simp
  have "(todos s)(k := None) = todos s" using free by (rule fun_upd_idem)
  then have two: "snd (exec (CallDelete k) (snd (exec (CallCreate []) s))) = ?s2"
    using Suc.prems(1) by (simp add: exec_def Create_def Delete_def Let_def)
  have n2: "nextID ?s2 = k + 1" by simp
  have "\<forall>j < n. todos ?s2 (k + 1 + of_nat j) = None"
  proof (intro allI impI)
    fix j assume "j < n"
    then have "Suc j < Suc n" by simp
    with Suc.prems(2) have "todos s (k + of_nat (Suc j)) = None" by blast
    then show "todos ?s2 (k + 1 + of_nat j) = None" by (simp add: ac_simps)
  qed
  with n2 have "snd (run (churn n (k + 1)) ?s2) = ?s2\<lparr>nextID := k + 1 + of_nat n\<rparr>"
    by (rule Suc.IH)
  then show ?case using two by (simp add: split_def Let_def ac_simps)
qed

lemma map_upt_sorted_nth:
  "sorted_wrt P (map f [0..<n]) \<Longrightarrow> i < j \<Longrightarrow> j < n \<Longrightarrow> P (f i) (f j)"
  by (auto simp: sorted_wrt_map sorted_wrt_iff_nth_less)

lemma map_upt_distinct_nth:
  "distinct (map f [0..<n]) \<Longrightarrow> i < j \<Longrightarrow> j < n \<Longrightarrow> f i \<noteq> f j"
proof -
  assume d: "distinct (map f [0..<n])" and ij: "i < j" "j < n"
  from d have "inj_on f (set [0..<n])" by (simp add: distinct_map)
  moreover have "i \<in> set [0..<n]" "j \<in> set [0..<n]" using ij by simp_all
  ultimately have "f i = f j \<longrightarrow> i = j" by (auto dest: inj_onD)
  then show ?thesis using ij by auto
qed

lemma issued_churn:
  "issued (fst (run (churn n k) s)) = map (\<lambda>j. nextID s + of_nat j) [0..<n]"
  by (simp add: issued_run creates_churn)

lemma first_issued:
  "0 < creates cs \<Longrightarrow> nextID s \<in> set (issued (fst (run cs s)))"
proof -
  assume "0 < creates cs"
  then have "0 \<in> {0..<creates cs}" by simp
  then have "nextID s + of_nat 0 \<in> (\<lambda>j. nextID s + of_nat j) ` {0..<creates cs}"
    by (rule imageI)
  then show ?thesis by (simp add: issued_run)
qed

lemma wrapped_create_overwrites:
  defines "cs \<equiv> CallCreate [] # CallMarkDone 1 # churn (2 ^ LENGTH('w::len) - 1) (2 :: 'w word)"
  shows "snd (run cs (initial :: 'w word store))
           = \<lparr>todos = [1 \<mapsto> \<lparr>ID = 1, Title = [], Done = True\<rparr>], nextID = 1\<rparr>"
    and "todos (snd (run (cs @ [CallCreate []]) (initial :: 'w word store))) 1
           = Some \<lparr>ID = 1, Title = [], Done = False\<rparr>"
proof -
  let ?s0 = "\<lparr>todos = [(1 :: 'w word) \<mapsto> \<lparr>ID = 1, Title = [], Done = True\<rparr>], nextID = 2\<rparr>"
  let ?n = "2 ^ LENGTH('w) - 1 :: nat"
  define s1 where "s1 = snd (run (churn ?n 2) ?s0)"
  have start: "snd (run cs (initial :: 'w word store)) = s1"
    unfolding s1_def cs_def
    by (simp add: initial_def exec_def Create_def MarkDone_def Let_def split_def)
  have fresh: "\<forall>j < ?n. todos ?s0 (2 + of_nat j) = None"
  proof (intro allI impI)
    fix j assume j: "j < ?n"
    have "(2 :: 'w word) + of_nat j \<noteq> 1"
    proof
      assume "(2 :: 'w word) + of_nat j = 1"
      then have "(of_nat (Suc j) :: 'w word) = of_nat 0" by simp
      moreover have "Suc j < 2 ^ LENGTH('w)" using j by simp
      moreover have "(0::nat) < 2 ^ LENGTH('w)" by simp
      ultimately have "Suc j = 0" by (rule of_nat_word_inj [rotated 2])
      then show False by simp
    qed
    then show "todos ?s0 (2 + of_nat j) = None" by simp
  qed
  have "nextID ?s0 = 2" by simp
  then have e1: "s1 = ?s0\<lparr>nextID := 2 + of_nat ?n\<rparr>"
    unfolding s1_def using fresh by (rule run_churn)
  have "(2 :: 'w word) + of_nat ?n = 2 + (- 1)" by (simp only: of_nat_max_word)
  then have e2: "(2 :: 'w word) + of_nat ?n = 1" by simp
  have s1: "s1 = \<lparr>todos = [1 \<mapsto> \<lparr>ID = 1, Title = [], Done = True\<rparr>], nextID = 1\<rparr>"
    unfolding e1 e2 by simp
  show "snd (run cs (initial :: 'w word store))
           = \<lparr>todos = [1 \<mapsto> \<lparr>ID = 1, Title = [], Done = True\<rparr>], nextID = 1\<rparr>"
    unfolding start by (rule s1)
  have "todos (snd (exec (CallCreate []) s1)) 1 = Some \<lparr>ID = 1, Title = [], Done = False\<rparr>"
    by (simp add: exec_def Create_def Let_def s1)
  then show "todos (snd (run (cs @ [CallCreate []]) (initial :: 'w word store))) 1
           = Some \<lparr>ID = 1, Title = [], Done = False\<rparr>"
    unfolding run_append snd_conv start by (simp add: split_def Let_def)
qed

lemma exec_coherent:
  assumes "\<forall>k t. todos s k = Some t \<longrightarrow> ID t = k"
  shows "\<forall>k t. todos (snd (exec c s)) k = Some t \<longrightarrow> ID t = k"
  using assms
  by (cases c)
    (auto simp: exec_def Create_def MarkDone_def Delete_def List_todos_def Let_def
      split: option.splits if_splits)

lemma run_coherent:
  assumes "\<forall>k t. todos s k = Some t \<longrightarrow> ID t = k"
  shows "\<forall>k t. todos (snd (run cs s)) k = Some t \<longrightarrow> ID t = k"
  using assms
proof (induction cs arbitrary: s)
  case Nil
  then show ?case by simp
next
  case (Cons c cs)
  from Cons.prems have "\<forall>k t. todos (snd (exec c s)) k = Some t \<longrightarrow> ID t = k"
    by (rule exec_coherent)
  then have "\<forall>k t. todos (snd (run cs (snd (exec c s)))) k = Some t \<longrightarrow> ID t = k"
    by (rule Cons.IH)
  then show ?case by (simp add: split_def Let_def)
qed

text \<open>
  Every request is a call: what a handler does to the store is what one of the four
  calls does (a request that is refused leaves the store as \<open>List\<close> does).
\<close>

lemma handler_is_call:
  fixes s :: "'w::len word store"
  assumes "route path = Some h"
  shows "\<exists>c. snd (h r s) = snd (exec c s)"
proof -
  have l: "snd (getTodosHandler r s) = snd (exec CallList s)"
    by (simp add: getTodosHandler_def exec_def)
  have c: "\<exists>c. snd (createTodoHandler r s) = snd (exec c s)"
  proof (cases "Method r = ''POST'' \<and> Decode (Body r) \<lparr>req_Title = []\<rparr> \<noteq> None")
    case True
    then obtain req where "Decode (Body r) \<lparr>req_Title = []\<rparr> = Some req" by blast
    with True have "snd (createTodoHandler r s) = snd (exec (CallCreate (req_Title req)) s)"
      by (simp add: createTodoHandler_def exec_def split_def Let_def)
    then show ?thesis by blast
  next
    case False
    then have "snd (createTodoHandler r s) = snd (exec CallList s)"
      by (auto simp: createTodoHandler_def exec_def Let_def)
    then show ?thesis by blast
  qed
  have u: "\<exists>c. snd (updateTodoHandler r s) = snd (exec c s)"
  proof (cases "Method r = ''PUT'' \<and> Get (Query r) ''id'' \<noteq> []
      \<and> (Atoi (Get (Query r) ''id'') :: 'w word option) \<noteq> None")
    case True
    then obtain k :: "'w word" where "Atoi (Get (Query r) ''id'') = Some k" by blast
    with True have "snd (updateTodoHandler r s) = snd (exec (CallMarkDone k) s)"
      by (simp add: updateTodoHandler_def exec_def Let_def split: prod.splits option.splits)
    then show ?thesis by blast
  next
    case False
    then have "snd (updateTodoHandler r s) = snd (exec CallList s)"
      by (auto simp: updateTodoHandler_def exec_def Let_def)
    then show ?thesis by blast
  qed
  have d: "\<exists>c. snd (deleteTodoHandler r s) = snd (exec c s)"
  proof (cases "Method r = ''DELETE'' \<and> Get (Query r) ''id'' \<noteq> []
      \<and> (Atoi (Get (Query r) ''id'') :: 'w word option) \<noteq> None")
    case True
    then obtain k :: "'w word" where "Atoi (Get (Query r) ''id'') = Some k" by blast
    with True have "snd (deleteTodoHandler r s) = snd (exec (CallDelete k) s)"
      by (simp add: deleteTodoHandler_def exec_def Let_def split: prod.splits bool.splits)
    then show ?thesis by blast
  next
    case False
    then have "snd (deleteTodoHandler r s) = snd (exec CallList s)"
      by (auto simp: deleteTodoHandler_def exec_def Let_def)
    then show ?thesis by blast
  qed
  from assms l c u d show ?thesis
    by (auto simp: route_def split: if_splits)
qed

lemma guarded_routes_reject_other_methods:
  fixes s :: "'w::len word store"
  shows "Method r \<noteq> ''POST'' \<Longrightarrow>
           createTodoHandler r s = (\<lparr>status = 405, content_type = None, resp_body = None\<rparr>, s)"
    and "Method r \<noteq> ''PUT'' \<Longrightarrow>
           updateTodoHandler r s = (\<lparr>status = 405, content_type = None, resp_body = None\<rparr>, s)"
    and "Method r \<noteq> ''DELETE'' \<Longrightarrow>
           deleteTodoHandler r s = (\<lparr>status = 405, content_type = None, resp_body = None\<rparr>, s)"
  by (simp_all add: createTodoHandler_def updateTodoHandler_def deleteTodoHandler_def
      WriteHeader_def new_response_def)

section \<open>Lemmas on decimal strings and the JSON of the store\<close>

lemma digit_cases: "d < 10 \<Longrightarrow> d = 0 \<or> d = 1 \<or> d = 2 \<or> d = 3 \<or> d = 4 \<or> d = 5 \<or> d = 6 \<or> d = 7 \<or> d = 8 \<or> d = (9::nat)"
  by arith

lemma digit_val_digit_char: "d < 10 \<Longrightarrow> digit_val (digit_char d) = Some d"
  by (drule digit_cases) (auto simp: digit_val_def digit_char_def)

lemma digit_char_not_sign: "d < 10 \<Longrightarrow> digit_char d \<noteq> CHR ''-'' \<and> digit_char d \<noteq> CHR ''+''"
  by (drule digit_cases) (auto simp: digit_char_def)

lemma parse_digits_append:
  "parse_digits (xs @ ys) acc =
     (case parse_digits xs acc of None \<Rightarrow> None | Some a \<Rightarrow> parse_digits ys a)"
  by (induction xs arbitrary: acc) (simp_all split: option.splits)

lemma parse_digits_decimal: "parse_digits (decimal n) 0 = Some n"
proof (induction n rule: decimal.induct)
  case (1 n)
  show ?case
  proof (cases "n < 10")
    case True
    then show ?thesis by (simp add: decimal.simps [of n] digit_val_digit_char)
  next
    case False
    then have "parse_digits (decimal (n div 10)) 0 = Some (n div 10)" by (rule "1.IH")
    then show ?thesis using False
      by (simp add: decimal.simps [of n] parse_digits_append digit_val_digit_char)
  qed
qed

lemma decimal_first: "\<exists>d cs. d < 10 \<and> decimal n = digit_char d # cs"
proof (induction n rule: decimal.induct)
  case (1 n)
  show ?case
  proof (cases "n < 10")
    case True
    then show ?thesis by (auto simp: decimal.simps [of n])
  next
    case False
    then obtain d cs where "d < 10" "decimal (n div 10) = digit_char d # cs"
      using "1.IH" by blast
    then show ?thesis using False by (auto simp: decimal.simps [of n])
  qed
qed

lemma decimal_nonempty: "decimal n \<noteq> []"
  using decimal_first [of n] by auto

lemma decimal_unsigned: "hd (decimal n) \<noteq> CHR ''-'' \<and> hd (decimal n) \<noteq> CHR ''+''"
  using decimal_first [of n] digit_char_not_sign by auto

lemma Atoi_minus:
  assumes "ds \<noteq> []" and "parse_digits ds 0 = Some n"
    and "- (2 ^ (LENGTH('w::len) - 1)) \<le> - int n"
  shows "(Atoi (CHR ''-'' # ds) :: 'w word option) = Some (word_of_int (- int n))"
proof -
  have "- int n \<le> 0" by simp
  also have "(0::int) < 2 ^ (LENGTH('w) - 1)" by simp
  finally have "\<not> 2 ^ (LENGTH('w) - 1) \<le> - int n" by simp
  then show ?thesis using assms by (simp add: Atoi_def Let_def)
qed

lemma Atoi_unsigned:
  assumes "ds \<noteq> []" and "hd ds \<noteq> CHR ''-'' \<and> hd ds \<noteq> CHR ''+''"
    and "parse_digits ds 0 = Some n" and "int n < 2 ^ (LENGTH('w::len) - 1)"
  shows "(Atoi ds :: 'w word option) = Some (word_of_int (int n))"
proof -
  obtain c cs where ds: "ds = c # cs" using assms(1) by (cases ds) auto
  have "- (2 ^ (LENGTH('w) - 1)) \<le> (0::int)" by simp
  also have "(0::int) \<le> int n" by simp
  finally have "\<not> int n < - (2 ^ (LENGTH('w) - 1))" by simp
  then show ?thesis using assms unfolding ds
    by (simp add: Atoi_def Let_def del: parse_digits.simps)
qed

lemma Atoi_Itoa: "Atoi (Itoa (sint k)) = Some (k :: 'w::len word)"
proof (cases "sint k < 0")
  case True
  have "- (2 ^ (LENGTH('w) - 1)) \<le> - int (nat (- sint k))"
    using True sint_ge [of k] by simp
  with decimal_nonempty parse_digits_decimal
  have "(Atoi (CHR ''-'' # decimal (nat (- sint k))) :: 'w word option)
          = Some (word_of_int (- int (nat (- sint k))))"
    by (rule Atoi_minus)
  then show ?thesis using True by (simp add: Itoa_def)
next
  case False
  have "int (nat (sint k)) < 2 ^ (LENGTH('w) - 1)"
    using False sint_lt [of k] by simp
  with decimal_nonempty decimal_unsigned parse_digits_decimal
  have "(Atoi (decimal (nat (sint k))) :: 'w word option) = Some (word_of_int (int (nat (sint k))))"
    by (rule Atoi_unsigned)
  then show ?thesis using False by (simp add: Itoa_def)
qed

lemma Atoi_empty: "Atoi [] = None"
  by (simp add: Atoi_def)

lemma object_member_todos_json:
  "object_member (todos_json m) (Itoa (sint k)) = map_option todo_json (m k)"
  by (simp add: todos_json_def Atoi_Itoa)

lemma object_member_todos_json_only:
  assumes "object_member (todos_json m) name = Some v"
  shows "\<exists>k t. name = Itoa (sint k) \<and> m k = Some t \<and> v = todo_json t"
  using assms by (auto simp: todos_json_def split: option.splits if_splits)

lemma todos_json_empty: "todos_json Map.empty = JObject Map.empty"
  by (auto simp: todos_json_def split: option.splits)

lemma Atoi_Some_nonempty: "Atoi idStr = Some k \<Longrightarrow> idStr \<noteq> []"
  by (auto simp: Atoi_empty)

section \<open>Creation\<close>

text \<open>
  C1. For every store and every title, also the empty one, \<open>Create\<close> returns the todo
  with the current \<open>nextID\<close> as its id, the given title and \<open>done = false\<close>, stores it
  under that id and adds one to \<open>nextID\<close> (in the arithmetic of \<^verbatim>\<open>int\<close>). A \<^verbatim>\<open>POST\<close> whose
  body decodes is answered 200 with that todo, and a body without \<^verbatim>\<open>title\<close> creates the
  todo with the empty title.
\<close>

theorem create_always_succeeds:
  fixes s :: "'w::len word store"
  shows "Create title s =
           (\<lparr>ID = nextID s, Title = title, Done = False\<rparr>,
            \<lparr>todos = (todos s)(nextID s \<mapsto> \<lparr>ID = nextID s, Title = title, Done = False\<rparr>),
             nextID = nextID s + 1\<rparr>)
       \<and> createTodoHandler \<lparr>Method = ''POST'', Query = q, Body = Decoded (Some title)\<rparr> s =
           (\<lparr>status = 200, content_type = Some ''application/json'',
             resp_body = Some (todo_json (fst (Create title s)))\<rparr>,
            snd (Create title s))
       \<and> createTodoHandler \<lparr>Method = ''POST'', Query = q, Body = Decoded None\<rparr> s =
           (\<lparr>status = 200, content_type = Some ''application/json'',
             resp_body = Some (todo_json (fst (Create [] s)))\<rparr>,
            snd (Create [] s))"
  by (simp add: Create_def createTodoHandler_def Decode_def Header_Set_def Encode_def
      new_response_def Let_def)

theorem create_always_succeeds_witness:
  "createTodoHandler \<lparr>Method = ''POST'', Query = (\<lambda>_. []), Body = Decoded None\<rparr>
     (initial :: 64 word store) =
   (\<lparr>status = 200, content_type = Some ''application/json'',
     resp_body = Some (todo_json \<lparr>ID = 1 :: 64 word, Title = [], Done = False\<rparr>)\<rparr>,
    \<lparr>todos = [1 \<mapsto> \<lparr>ID = 1, Title = [], Done = False\<rparr>], nextID = 2\<rparr>)"
  using create_always_succeeds [of "[]" "initial :: 64 word store" "\<lambda>_. []"]
  by (simp add: initial_def)

section \<open>The id counter\<close>

text \<open>
  C2, as amended. In a run from the initial store with \<open>n\<close> \<open>Create\<close> calls, whatever
  \<open>MarkDone\<close>, \<open>Delete\<close> and \<open>List\<close> calls come between them, and for \<open>w\<close> the width of
  \<^verbatim>\<open>int\<close>: the ids returned by the \<open>Create\<close> calls are pairwise distinct when
  \<open>n \<le> 2 ^ w\<close>; they are strictly increasing, in the order of \<^verbatim>\<open>int\<close>, when
  \<open>n < 2 ^ (w - 1)\<close>; and every one of them is below the final \<open>nextID\<close> when
  \<open>n + 1 < 2 ^ (w - 1)\<close>. \<open>Delete\<close> leaves \<open>nextID\<close> as it is, in every store.
\<close>

theorem ids_increase_before_overflow:
  fixes cs :: "'w::len word call list"
  shows "(creates cs \<le> 2 ^ LENGTH('w) \<longrightarrow> distinct (issued (fst (run cs initial))))
       \<and> (int (creates cs) < 2 ^ (LENGTH('w) - 1) \<longrightarrow>
            sorted_wrt (<s) (issued (fst (run cs initial))))
       \<and> (int (creates cs) + 1 < 2 ^ (LENGTH('w) - 1) \<longrightarrow>
            (\<forall>i \<in> set (issued (fst (run cs initial))). i <s nextID (snd (run cs initial))))
       \<and> nextID (snd (Delete k s)) = nextID (s :: 'w word store)"
proof -
  let ?n = "creates cs"
  let ?ids = "map (\<lambda>j. (1 :: 'w word) + of_nat j) [0..<?n]"
  have ids: "issued (fst (run cs (initial :: 'w word store))) = ?ids"
    by (simp add: issued_run initial_def)
  have nxt: "nextID (snd (run cs (initial :: 'w word store))) = 1 + of_nat ?n"
    by (simp add: nextID_run initial_def)
  have val: "sint ((1 :: 'w word) + of_nat j) = 1 + int j" if "int j + 1 < 2 ^ (LENGTH('w) - 1)" for j
  proof -
    have "int (Suc j) < 2 ^ (LENGTH('w) - 1)" using that by simp
    then have "sint (of_nat (Suc j) :: 'w word) = int (Suc j)" by (rule sint_of_nat_small)
    then show ?thesis by simp
  qed
  have dst: "distinct ?ids" if "?n \<le> 2 ^ LENGTH('w)"
  proof -
    have "inj_on (\<lambda>j. (1 :: 'w word) + of_nat j) (set [0..<?n])"
    proof (rule inj_onI)
      fix a b
      assume a: "a \<in> set [0..<?n]" and b: "b \<in> set [0..<?n]"
        and e: "(1 :: 'w word) + of_nat a = 1 + of_nat b"
      from a that have a': "a < 2 ^ LENGTH('w)" by simp
      from b that have b': "b < 2 ^ LENGTH('w)" by simp
      from e have "(of_nat a :: 'w word) = of_nat b" by simp
      with a' b' show "a = b" by (rule of_nat_word_inj)
    qed
    then show ?thesis by (simp add: distinct_map)
  qed
  have srt: "sorted_wrt (<s) ?ids" if "int ?n < 2 ^ (LENGTH('w) - 1)"
  proof -
    have "sint ((1 :: 'w word) + of_nat i) < sint ((1 :: 'w word) + of_nat j)"
      if "i < j" "j < ?n" for i j
    proof -
      have "int j + 1 \<le> int ?n" "int i + 1 \<le> int ?n" using that by simp_all
      with \<open>int ?n < 2 ^ (LENGTH('w) - 1)\<close>
      have "int j + 1 < 2 ^ (LENGTH('w) - 1)" "int i + 1 < 2 ^ (LENGTH('w) - 1)"
        by linarith+
      then show ?thesis using that by (simp add: val)
    qed
    then show ?thesis
      by (simp add: sorted_wrt_map sorted_wrt_iff_nth_less word_sless_alt)
  qed
  have bnd: "\<forall>i \<in> set ?ids. i <s 1 + of_nat ?n" if "int ?n + 1 < 2 ^ (LENGTH('w) - 1)"
  proof
    fix i assume "i \<in> set ?ids"
    then obtain j where j: "j < ?n" and i: "i = 1 + of_nat j" by auto
    have "int j + 1 \<le> int ?n" using j by simp
    with that have "int j + 1 < 2 ^ (LENGTH('w) - 1)" by linarith
    then show "i <s 1 + of_nat ?n" using j that by (simp add: i word_sless_alt val)
  qed
  have del: "nextID (snd (Delete k s)) = nextID s"
    by (simp add: Delete_def split: option.splits)
  show ?thesis unfolding ids nxt using srt dst bnd del by blast
qed

theorem ids_increase_before_overflow_witness:
  "creates [CallCreate ''a'', CallDelete (1 :: 64 word), CallCreate ''b''] \<le> 2 ^ LENGTH(64)
   \<and> int (creates [CallCreate ''a'', CallDelete (1 :: 64 word), CallCreate ''b'']) + 1 < 2 ^ (LENGTH(64) - 1)
   \<and> issued (fst (run [CallCreate ''a'', CallDelete 1, CallCreate ''b''] (initial :: 64 word store))) = [1, 2]
   \<and> sorted_wrt (<s) (issued (fst (run [CallCreate ''a'', CallDelete 1, CallCreate ''b''] (initial :: 64 word store))))
   \<and> distinct (issued (fst (run [CallCreate ''a'', CallDelete 1, CallCreate ''b''] (initial :: 64 word store))))
   \<and> nextID (snd (run [CallCreate ''a'', CallDelete 1, CallCreate ''b''] (initial :: 64 word store))) = 3"
proof -
  let ?cs = "[CallCreate ''a'', CallDelete (1 :: 64 word), CallCreate ''b'']"
  have h1: "creates ?cs \<le> 2 ^ LENGTH(64)" by simp
  have h3: "int (creates ?cs) + 1 < 2 ^ (LENGTH(64) - 1)" by simp
  then have h2: "int (creates ?cs) < 2 ^ (LENGTH(64) - 1)" by simp
  have e: "run ?cs (initial :: 64 word store) =
     ([Created \<lparr>ID = 1, Title = ''a'', Done = False\<rparr>, Deleted, Created \<lparr>ID = 2, Title = ''b'', Done = False\<rparr>],
      \<lparr>todos = [2 \<mapsto> \<lparr>ID = 2, Title = ''b'', Done = False\<rparr>], nextID = 3\<rparr>)"
    by (simp add: initial_def exec_def Create_def Delete_def Let_def)
  note t = ids_increase_before_overflow [of ?cs 1 initial]
  from t h2 have srt: "sorted_wrt (<s) (issued (fst (run ?cs (initial :: 64 word store))))"
    by blast
  from t h1 have dst: "distinct (issued (fst (run ?cs (initial :: 64 word store))))"
    by blast
  have ids: "issued (fst (run ?cs (initial :: 64 word store))) = [1, 2]"
    unfolding e by simp
  have nxt: "nextID (snd (run ?cs (initial :: 64 word store))) = 3"
    unfolding e by simp
  from h1 h3 ids srt dst nxt show ?thesis by blast
qed

text \<open>
  C2 as stated, for every run, does not hold: \<^verbatim>\<open>nextID++\<close> wraps around. With a 32-bit
  \<^verbatim>\<open>int\<close> and every todo deleted as soon as it is created, so that the map stays empty:
  after \<open>2 ^ 31 - 1\<close> rounds the id 1 has been issued and \<open>nextID\<close> is the least \<^verbatim>\<open>int\<close>,
  which is below it; after \<open>2 ^ 31\<close> rounds the last id issued is below the first; after
  \<open>2 ^ 32 + 1\<close> rounds the id 1 has been issued twice. Each bound of the amended claim
  is the largest that holds.
\<close>

theorem ids_overflow_counterexample:
  "1 \<in> set (issued (fst (run (churn (2 ^ 31 - 1) 1) (initial :: 32 word store))))
   \<and> nextID (snd (run (churn (2 ^ 31 - 1) 1) (initial :: 32 word store))) <s 1
   \<and> todos (snd (run (churn (2 ^ 31 - 1) 1) (initial :: 32 word store))) = Map.empty
   \<and> \<not> sorted_wrt (<s) (issued (fst (run (churn (2 ^ 31) 1) (initial :: 32 word store))))
   \<and> \<not> distinct (issued (fst (run (churn (2 ^ 32 + 1) 1) (initial :: 32 word store))))"
proof -
  have "0 < creates (churn (2 ^ 31 - 1) (1 :: 32 word))" by (simp add: creates_churn)
  then have "nextID (initial :: 32 word store)
      \<in> set (issued (fst (run (churn (2 ^ 31 - 1) 1) (initial :: 32 word store))))"
    by (rule first_issued)
  then have a: "1 \<in> set (issued (fst (run (churn (2 ^ 31 - 1) 1) (initial :: 32 word store))))"
    by (simp add: initial_def)
  have b: "nextID (snd (run (churn (2 ^ 31 - 1) 1) (initial :: 32 word store))) <s 1"
    unfolding nextID_run creates_churn by (simp add: initial_def word_sless_alt)
  have "snd (run (churn (2 ^ 31 - 1) 1) (initial :: 32 word store))
      = (initial :: 32 word store)\<lparr>nextID := 1 + of_nat (2 ^ 31 - 1)\<rparr>"
    by (rule run_churn) (simp_all add: initial_def)
  then have c: "todos (snd (run (churn (2 ^ 31 - 1) 1) (initial :: 32 word store))) = Map.empty"
    by (simp add: initial_def)
  have d: "\<not> sorted_wrt (<s) (issued (fst (run (churn (2 ^ 31) 1) (initial :: 32 word store))))"
  proof
    assume "sorted_wrt (<s) (issued (fst (run (churn (2 ^ 31) 1) (initial :: 32 word store))))"
    then have "sorted_wrt (<s) (map (\<lambda>j. (1 :: 32 word) + of_nat j) [0..<2 ^ 31])"
      unfolding issued_churn by (simp only: initial_def store.simps)
    moreover have "(0 :: nat) < 2 ^ 31 - 1" "(2 ^ 31 - 1 :: nat) < 2 ^ 31" by simp_all
    ultimately have "(1 :: 32 word) + of_nat 0 <s 1 + of_nat (2 ^ 31 - 1)"
      by (rule map_upt_sorted_nth)
    then show False by (simp add: word_sless_alt)
  qed
  have e: "\<not> distinct (issued (fst (run (churn (2 ^ 32 + 1) 1) (initial :: 32 word store))))"
  proof
    assume "distinct (issued (fst (run (churn (2 ^ 32 + 1) 1) (initial :: 32 word store))))"
    then have "distinct (map (\<lambda>j. (1 :: 32 word) + of_nat j) [0..<2 ^ 32 + 1])"
      unfolding issued_churn by (simp only: initial_def store.simps)
    moreover have "(0 :: nat) < 2 ^ 32" "(2 ^ 32 :: nat) < 2 ^ 32 + 1" by simp_all
    ultimately have "(1 :: 32 word) + of_nat 0 \<noteq> 1 + of_nat (2 ^ 32)"
      by (rule map_upt_distinct_nth)
    then show False by simp
  qed
  from a b c d e show ?thesis by blast
qed

section \<open>Marking done\<close>

text \<open>
  C3. For a store that has a todo under \<open>k\<close>, \<open>MarkDone k\<close> returns that todo with
  \<open>done = true\<close> and stores it, and a second \<open>MarkDone k\<close> returns the same todo and
  leaves the same store as the first. So does the handler: a \<^verbatim>\<open>PUT\<close> with that id is
  answered 200 with the todo, \<open>done = true\<close>, and repeating the request gives the same
  response and the same store.
\<close>

theorem mark_done_idempotent:
  fixes s :: "'w::len word store"
  assumes "todos s k = Some t"
  shows "MarkDone k s = (Some (t\<lparr>Done := True\<rparr>), s\<lparr>todos := (todos s)(k \<mapsto> t\<lparr>Done := True\<rparr>)\<rparr>)
       \<and> MarkDone k (snd (MarkDone k s)) = MarkDone k s
       \<and> (Method r = ''PUT'' \<and> Atoi (Get (Query r) ''id'') = Some k \<longrightarrow>
            updateTodoHandler r s =
              (\<lparr>status = 200, content_type = Some ''application/json'',
                resp_body = Some (todo_json (t\<lparr>Done := True\<rparr>))\<rparr>,
               snd (MarkDone k s))
          \<and> updateTodoHandler r (snd (updateTodoHandler r s)) = updateTodoHandler r s)"
proof -
  have 1: "MarkDone k s = (Some (t\<lparr>Done := True\<rparr>), s\<lparr>todos := (todos s)(k \<mapsto> t\<lparr>Done := True\<rparr>)\<rparr>)"
    using assms by (simp add: MarkDone_def Let_def)
  have 2: "MarkDone k (snd (MarkDone k s)) = MarkDone k s"
    using assms by (simp add: MarkDone_def Let_def)
  have 3: "updateTodoHandler r s =
              (\<lparr>status = 200, content_type = Some ''application/json'',
                resp_body = Some (todo_json (t\<lparr>Done := True\<rparr>))\<rparr>,
               snd (MarkDone k s))
          \<and> updateTodoHandler r (snd (updateTodoHandler r s)) = updateTodoHandler r s"
    if "Method r = ''PUT''" and "Atoi (Get (Query r) ''id'') = Some k"
  proof -
    have ne: "Get (Query r) ''id'' \<noteq> []" using that(2) by (auto simp: Atoi_empty)
    have h: "updateTodoHandler r s' =
        (case MarkDone k s' of
           (None, s1) \<Rightarrow> (WriteHeader 404 (Header_Set ''application/json'' new_response), s1)
         | (Some todo, s1) \<Rightarrow> (Encode (todo_json todo) (Header_Set ''application/json'' new_response), s1))"
      for s' :: "'w word store"
      using that ne by (simp add: updateTodoHandler_def Let_def)
    show ?thesis
      unfolding h 2 unfolding 1
      by (simp add: Encode_def Header_Set_def new_response_def MarkDone_def Let_def)
  qed
  from 1 2 3 show ?thesis by blast
qed

theorem mark_done_idempotent_witness:
  "todos \<lparr>todos = [(1 :: 64 word) \<mapsto> \<lparr>ID = 1, Title = ''a'', Done = False\<rparr>], nextID = 2\<rparr> 1
     = Some \<lparr>ID = 1, Title = ''a'', Done = False\<rparr>
   \<and> (Atoi (Get ((\<lambda>_. [])(''id'' := [''1''])) ''id'') :: 64 word option) = Some 1
   \<and> MarkDone 1 \<lparr>todos = [(1 :: 64 word) \<mapsto> \<lparr>ID = 1, Title = ''a'', Done = False\<rparr>], nextID = 2\<rparr>
     = (Some \<lparr>ID = 1, Title = ''a'', Done = True\<rparr>,
        \<lparr>todos = [1 \<mapsto> \<lparr>ID = 1, Title = ''a'', Done = True\<rparr>], nextID = 2\<rparr>)
   \<and> MarkDone 1 (snd (MarkDone 1 \<lparr>todos = [(1 :: 64 word) \<mapsto> \<lparr>ID = 1, Title = ''a'', Done = False\<rparr>], nextID = 2\<rparr>))
     = (Some \<lparr>ID = 1, Title = ''a'', Done = True\<rparr>,
        \<lparr>todos = [1 \<mapsto> \<lparr>ID = 1, Title = ''a'', Done = True\<rparr>], nextID = 2\<rparr>)
   \<and> updateTodoHandler \<lparr>Method = ''PUT'', Query = (\<lambda>_. [])(''id'' := [''1'']), Body = Malformed\<rparr>
        (snd (updateTodoHandler \<lparr>Method = ''PUT'', Query = (\<lambda>_. [])(''id'' := [''1'']), Body = Malformed\<rparr>
           \<lparr>todos = [(1 :: 64 word) \<mapsto> \<lparr>ID = 1, Title = ''a'', Done = False\<rparr>], nextID = 2\<rparr>))
     = (\<lparr>status = 200, content_type = Some ''application/json'',
         resp_body = Some (todo_json \<lparr>ID = (1 :: 64 word), Title = ''a'', Done = True\<rparr>)\<rparr>,
        \<lparr>todos = [1 \<mapsto> \<lparr>ID = 1, Title = ''a'', Done = True\<rparr>], nextID = 2\<rparr>)"
proof -
  let ?s = "\<lparr>todos = [(1 :: 64 word) \<mapsto> \<lparr>ID = 1, Title = ''a'', Done = False\<rparr>], nextID = 2\<rparr>"
  let ?r = "\<lparr>Method = ''PUT'', Query = (\<lambda>_. [])(''id'' := [''1'']), Body = Malformed\<rparr>"
  have m: "todos ?s 1 = Some \<lparr>ID = 1, Title = ''a'', Done = False\<rparr>" by simp
  have a: "(Atoi (Get ((\<lambda>_. [])(''id'' := [''1''])) ''id'') :: 64 word option) = Some 1"
    by (simp add: Get_def Atoi_def digit_val_def)
  then have p: "Method ?r = ''PUT'' \<and> Atoi (Get (Query ?r) ''id'') = Some (1 :: 64 word)" by simp
  note t = mark_done_idempotent [OF m, of ?r]
  from t have once: "MarkDone 1 ?s = (Some \<lparr>ID = 1, Title = ''a'', Done = True\<rparr>,
        \<lparr>todos = [1 \<mapsto> \<lparr>ID = 1, Title = ''a'', Done = True\<rparr>], nextID = 2\<rparr>)"
    by simp
  from t have "MarkDone 1 (snd (MarkDone 1 ?s)) = MarkDone 1 ?s" by blast
  then have twice: "MarkDone 1 (snd (MarkDone 1 ?s)) = (Some \<lparr>ID = 1, Title = ''a'', Done = True\<rparr>,
        \<lparr>todos = [1 \<mapsto> \<lparr>ID = 1, Title = ''a'', Done = True\<rparr>], nextID = 2\<rparr>)"
    by (simp only: once)
  from t p have "updateTodoHandler ?r (snd (updateTodoHandler ?r ?s)) = updateTodoHandler ?r ?s"
    and "updateTodoHandler ?r ?s = (\<lparr>status = 200, content_type = Some ''application/json'',
         resp_body = Some (todo_json (\<lparr>ID = (1 :: 64 word), Title = ''a'', Done = False\<rparr>\<lparr>Done := True\<rparr>))\<rparr>,
        snd (MarkDone 1 ?s))"
    by blast+
  then have again: "updateTodoHandler ?r (snd (updateTodoHandler ?r ?s)) =
      (\<lparr>status = 200, content_type = Some ''application/json'',
         resp_body = Some (todo_json \<lparr>ID = (1 :: 64 word), Title = ''a'', Done = True\<rparr>)\<rparr>,
        \<lparr>todos = [1 \<mapsto> \<lparr>ID = 1, Title = ''a'', Done = True\<rparr>], nextID = 2\<rparr>)"
    by (simp add: once)
  from m a once twice again show ?thesis by blast
qed

text \<open>
  C5, as amended. In a run from the initial store with at most \<open>2 ^ w\<close> \<open>Create\<close> calls,
  for \<open>w\<close> the width of \<^verbatim>\<open>int\<close>: a todo that is done at some point of the run is done
  at every later point where its id is in the map.
\<close>

theorem done_stays_before_wraparound:
  fixes cs1 cs2 :: "'w::len word call list"
  assumes bound: "creates (cs1 @ cs2) \<le> 2 ^ LENGTH('w)"
    and before: "todos (snd (run cs1 initial)) k = Some t" "Done t"
    and after: "todos (snd (run (cs1 @ cs2) initial)) k = Some u"
  shows "Done u"
proof -
  let ?s1 = "snd (run cs1 (initial :: 'w word store))"
  have n1: "nextID ?s1 = 1 + of_nat (creates cs1)"
    by (simp add: nextID_run initial_def)
  from before(1)
  have "todos (initial :: 'w word store) k \<noteq> None
      \<or> (\<exists>j < creates cs1. k = nextID (initial :: 'w word store) + of_nat j)"
    by (rule run_key_origin)
  then obtain j where j: "j < creates cs1" and k: "k = 1 + of_nat j"
    by (auto simp: initial_def)
  have fresh: "\<forall>i < creates cs2. nextID ?s1 + of_nat i \<noteq> k"
  proof (intro allI impI notI)
    fix i assume i: "i < creates cs2" and e: "nextID ?s1 + of_nat i = k"
    from e have "(of_nat (creates cs1 + i) :: 'w word) = of_nat j"
      by (simp add: n1 k)
    moreover have "creates cs1 + i < 2 ^ LENGTH('w)" using i bound by simp
    moreover have "j < 2 ^ LENGTH('w)" using j bound by simp
    ultimately have "creates cs1 + i = j" by (metis of_nat_word_inj)
    then show False using j by simp
  qed
  have "\<forall>t. todos ?s1 k = Some t \<longrightarrow> Done t" using before by simp
  with fresh have "\<forall>t. todos (snd (run cs2 ?s1)) k = Some t \<longrightarrow> Done t"
    by (rule run_keeps_done)
  then show ?thesis using after by (simp add: run_append)
qed

theorem done_stays_before_wraparound_witness:
  "creates ([CallCreate ''a'', CallMarkDone (1 :: 64 word)] @ [CallCreate ''b'', CallMarkDone 1, CallList])
     \<le> 2 ^ LENGTH(64)
   \<and> todos (snd (run [CallCreate ''a'', CallMarkDone 1] (initial :: 64 word store))) 1
       = Some \<lparr>ID = 1, Title = ''a'', Done = True\<rparr>
   \<and> todos (snd (run ([CallCreate ''a'', CallMarkDone 1] @ [CallCreate ''b'', CallMarkDone 1, CallList])
               (initial :: 64 word store))) 1
       = Some \<lparr>ID = 1, Title = ''a'', Done = True\<rparr>"
proof -
  have b: "creates ([CallCreate ''a'', CallMarkDone (1 :: 64 word)] @ [CallCreate ''b'', CallMarkDone 1, CallList])
     \<le> 2 ^ LENGTH(64)"
    by simp
  have s1: "todos (snd (run [CallCreate ''a'', CallMarkDone 1] (initial :: 64 word store))) 1
       = Some \<lparr>ID = 1, Title = ''a'', Done = True\<rparr>"
    by (simp add: initial_def exec_def Create_def MarkDone_def Let_def)
  have s2: "todos (snd (run ([CallCreate ''a'', CallMarkDone 1] @ [CallCreate ''b'', CallMarkDone 1, CallList])
               (initial :: 64 word store))) 1
       = Some \<lparr>ID = 1, Title = ''a'', Done = True\<rparr>"
    by (simp add: initial_def exec_def Create_def MarkDone_def List_todos_def Let_def)
  have "Done \<lparr>ID = (1 :: 64 word), Title = ''a'', Done = True\<rparr>"
    using done_stays_before_wraparound [OF b s1 _ s2] by simp
  with b s1 s2 show ?thesis by blast
qed

text \<open>
  C5 as stated, for every reachable store, does not hold: once \<open>nextID\<close> has wrapped
  around to an id that is still in the map, \<open>Create\<close> overwrites that todo with a new one
  that is not done. With a 32-bit \<^verbatim>\<open>int\<close>: create todo 1, mark it done, then create and
  at once delete \<open>2 ^ 32 - 1\<close> further todos. The map holds todo 1 alone, done, and
  \<open>nextID\<close> is 1 again; the next \<open>Create\<close> replaces todo 1 by one that is not done.
\<close>

theorem done_reverts_counterexample:
  "snd (run (CallCreate [] # CallMarkDone 1 # churn (2 ^ 32 - 1) 2) (initial :: 32 word store))
     = \<lparr>todos = [1 \<mapsto> \<lparr>ID = 1, Title = [], Done = True\<rparr>], nextID = 1\<rparr>
   \<and> todos (snd (run ((CallCreate [] # CallMarkDone 1 # churn (2 ^ 32 - 1) 2) @ [CallCreate []])
                  (initial :: 32 word store))) 1
     = Some \<lparr>ID = 1, Title = [], Done = False\<rparr>"
  using wrapped_create_overwrites [where 'w = 32] by simp

section \<open>Keys and ids\<close>

text \<open>
  C10. In every store reached from the initial one by any sequence of calls, every key
  \<open>k\<close> of the map holds a todo whose \<open>ID\<close> is \<open>k\<close>; and each of the four operations
  keeps it so, from any store where it holds.
\<close>

theorem keys_are_ids:
  fixes s :: "'w::len word store"
  shows "(\<forall>k t. todos (snd (run cs (initial :: 'w word store))) k = Some t \<longrightarrow> ID t = k)
       \<and> ((\<forall>k t. todos s k = Some t \<longrightarrow> ID t = k) \<longrightarrow>
            (\<forall>k t. todos (snd (Create title s)) k = Some t \<longrightarrow> ID t = k)
          \<and> (\<forall>k t. todos (snd (MarkDone j s)) k = Some t \<longrightarrow> ID t = k)
          \<and> (\<forall>k t. todos (snd (Delete j s)) k = Some t \<longrightarrow> ID t = k)
          \<and> (\<forall>k t. List_todos s k = Some t \<longrightarrow> ID t = k))"
proof -
  have "\<forall>k t. todos (initial :: 'w word store) k = Some t \<longrightarrow> ID t = k"
    by (simp add: initial_def)
  then have 1: "\<forall>k t. todos (snd (run cs (initial :: 'w word store))) k = Some t \<longrightarrow> ID t = k"
    by (rule run_coherent)
  have 2: "(\<forall>k t. todos (snd (Create title s)) k = Some t \<longrightarrow> ID t = k)
          \<and> (\<forall>k t. todos (snd (MarkDone j s)) k = Some t \<longrightarrow> ID t = k)
          \<and> (\<forall>k t. todos (snd (Delete j s)) k = Some t \<longrightarrow> ID t = k)
          \<and> (\<forall>k t. List_todos s k = Some t \<longrightarrow> ID t = k)"
    if inv: "\<forall>k t. todos s k = Some t \<longrightarrow> ID t = k"
  proof -
    have a: "\<forall>k t. todos (snd (Create title s)) k = Some t \<longrightarrow> ID t = k"
      using inv by (auto simp: Create_def Let_def)
    have b: "\<forall>k t. todos (snd (MarkDone j s)) k = Some t \<longrightarrow> ID t = k"
      using inv by (auto simp: MarkDone_def Let_def split: option.splits if_splits)
    have c: "\<forall>k t. todos (snd (Delete j s)) k = Some t \<longrightarrow> ID t = k"
      using inv by (auto simp: Delete_def split: option.splits if_splits)
    have d: "\<forall>k t. List_todos s k = Some t \<longrightarrow> ID t = k"
      using inv by (simp add: List_todos_def)
    from a b c d show ?thesis by blast
  qed
  from 1 2 show ?thesis by blast
qed

theorem keys_are_ids_witness:
  "todos (snd (run [CallCreate ''a'', CallCreate ''b'', CallMarkDone 2, CallDelete 1] (initial :: 64 word store))) 2
     = Some \<lparr>ID = 2, Title = ''b'', Done = True\<rparr>
   \<and> ID (the (todos (snd (run [CallCreate ''a'', CallCreate ''b'', CallMarkDone 2, CallDelete 1]
                             (initial :: 64 word store))) 2)) = 2"
proof -
  let ?s = "snd (run [CallCreate ''a'', CallCreate ''b'', CallMarkDone 2, CallDelete 1] (initial :: 64 word store))"
  have e: "todos ?s 2 = Some \<lparr>ID = 2, Title = ''b'', Done = True\<rparr>"
    by (simp add: initial_def exec_def Create_def MarkDone_def Delete_def Let_def)
  from keys_are_ids [of "[CallCreate ''a'', CallCreate ''b'', CallMarkDone 2, CallDelete 1]"]
  have "\<forall>k t. todos ?s k = Some t \<longrightarrow> ID t = k" by blast
  with e have "ID (the (todos ?s 2)) = 2" by simp
  with e show ?thesis by blast
qed

section \<open>Requests with a bad id\<close>

text \<open>
  C4. On \<^verbatim>\<open>/todos/update\<close> with \<^verbatim>\<open>PUT\<close> and on \<^verbatim>\<open>/todos/delete\<close> with \<^verbatim>\<open>DELETE\<close>: a request
  with no \<^verbatim>\<open>id\<close> parameter is answered 400; one whose \<^verbatim>\<open>id\<close> is not an integer, that is,
  which \<^verbatim>\<open>strconv.Atoi\<close> refuses, is answered 400; one whose \<^verbatim>\<open>id\<close> is an integer that is
  not a key of the map is answered 404. In each case nothing is written as body and the
  store, map and counter, is returned as it was.
\<close>

theorem bad_id_is_rejected:
  fixes s :: "'w::len word store"
  shows "(Method r = ''PUT'' \<longrightarrow>
           (Query r ''id'' = [] \<longrightarrow>
              updateTodoHandler r s =
                (\<lparr>status = 400, content_type = Some ''application/json'', resp_body = None\<rparr>, s))
         \<and> ((Atoi (Get (Query r) ''id'') :: 'w word option) = None \<longrightarrow>
              updateTodoHandler r s =
                (\<lparr>status = 400, content_type = Some ''application/json'', resp_body = None\<rparr>, s))
         \<and> (\<forall>k. Atoi (Get (Query r) ''id'') = Some k \<and> todos s k = None \<longrightarrow>
              updateTodoHandler r s =
                (\<lparr>status = 404, content_type = Some ''application/json'', resp_body = None\<rparr>, s)))
       \<and> (Method r = ''DELETE'' \<longrightarrow>
           (Query r ''id'' = [] \<longrightarrow>
              deleteTodoHandler r s = (\<lparr>status = 400, content_type = None, resp_body = None\<rparr>, s))
         \<and> ((Atoi (Get (Query r) ''id'') :: 'w word option) = None \<longrightarrow>
              deleteTodoHandler r s = (\<lparr>status = 400, content_type = None, resp_body = None\<rparr>, s))
         \<and> (\<forall>k. Atoi (Get (Query r) ''id'') = Some k \<and> todos s k = None \<longrightarrow>
              deleteTodoHandler r s = (\<lparr>status = 404, content_type = None, resp_body = None\<rparr>, s)))"
proof -
  have u1: "updateTodoHandler r s =
        (\<lparr>status = 400, content_type = Some ''application/json'', resp_body = None\<rparr>, s)"
    if "Method r = ''PUT''" "Query r ''id'' = []"
    using that
    by (simp add: updateTodoHandler_def Get_def WriteHeader_def Header_Set_def new_response_def)
  have u2: "updateTodoHandler r s =
        (\<lparr>status = 400, content_type = Some ''application/json'', resp_body = None\<rparr>, s)"
    if "Method r = ''PUT''" "(Atoi (Get (Query r) ''id'') :: 'w word option) = None"
    using that
    by (simp add: updateTodoHandler_def WriteHeader_def Header_Set_def new_response_def Let_def)
  have u3: "updateTodoHandler r s =
        (\<lparr>status = 404, content_type = Some ''application/json'', resp_body = None\<rparr>, s)"
    if "Method r = ''PUT''" "Atoi (Get (Query r) ''id'') = Some k" "todos s k = None" for k
    using that Atoi_Some_nonempty [OF that(2)]
    by (simp add: updateTodoHandler_def MarkDone_def WriteHeader_def Header_Set_def
        new_response_def Let_def)
  have d1: "deleteTodoHandler r s = (\<lparr>status = 400, content_type = None, resp_body = None\<rparr>, s)"
    if "Method r = ''DELETE''" "Query r ''id'' = []"
    using that
    by (simp add: deleteTodoHandler_def Get_def WriteHeader_def new_response_def)
  have d2: "deleteTodoHandler r s = (\<lparr>status = 400, content_type = None, resp_body = None\<rparr>, s)"
    if "Method r = ''DELETE''" "(Atoi (Get (Query r) ''id'') :: 'w word option) = None"
    using that
    by (simp add: deleteTodoHandler_def WriteHeader_def new_response_def Let_def)
  have d3: "deleteTodoHandler r s = (\<lparr>status = 404, content_type = None, resp_body = None\<rparr>, s)"
    if "Method r = ''DELETE''" "Atoi (Get (Query r) ''id'') = Some k" "todos s k = None" for k
    using that Atoi_Some_nonempty [OF that(2)]
    by (simp add: deleteTodoHandler_def Delete_def WriteHeader_def new_response_def Let_def)
  from u1 u2 u3 d1 d2 d3 show ?thesis by blast
qed

theorem bad_id_is_rejected_witness:
  "updateTodoHandler \<lparr>Method = ''PUT'', Query = (\<lambda>_. []), Body = Malformed\<rparr> (initial :: 64 word store)
     = (\<lparr>status = 400, content_type = Some ''application/json'', resp_body = None\<rparr>, initial)
   \<and> deleteTodoHandler \<lparr>Method = ''DELETE'', Query = (\<lambda>_. [])(''id'' := [''abc'']), Body = Malformed\<rparr>
       (initial :: 64 word store)
     = (\<lparr>status = 400, content_type = None, resp_body = None\<rparr>, initial)
   \<and> deleteTodoHandler \<lparr>Method = ''DELETE'', Query = (\<lambda>_. [])(''id'' := [''7'']), Body = Malformed\<rparr>
       (initial :: 64 word store)
     = (\<lparr>status = 404, content_type = None, resp_body = None\<rparr>, initial)"
proof -
  let ?r1 = "\<lparr>Method = ''PUT'', Query = (\<lambda>_. []), Body = Malformed\<rparr>"
  let ?r2 = "\<lparr>Method = ''DELETE'', Query = (\<lambda>_. [])(''id'' := [''abc'']), Body = Malformed\<rparr>"
  let ?r3 = "\<lparr>Method = ''DELETE'', Query = (\<lambda>_. [])(''id'' := [''7'']), Body = Malformed\<rparr>"
  have a2: "(Atoi (Get (Query ?r2) ''id'') :: 64 word option) = None"
    by (simp add: Get_def Atoi_def digit_val_def)
  have a3: "(Atoi (Get (Query ?r3) ''id'') :: 64 word option) = Some 7"
    by (simp add: Get_def Atoi_def digit_val_def)
  have t3: "todos (initial :: 64 word store) 7 = None" by (simp add: initial_def)
  have 1: "updateTodoHandler ?r1 (initial :: 64 word store)
     = (\<lparr>status = 400, content_type = Some ''application/json'', resp_body = None\<rparr>, initial)"
    using bad_id_is_rejected [of ?r1 "initial :: 64 word store"] by simp
  have 2: "deleteTodoHandler ?r2 (initial :: 64 word store)
     = (\<lparr>status = 400, content_type = None, resp_body = None\<rparr>, initial)"
    using bad_id_is_rejected [of ?r2 "initial :: 64 word store"] a2 by simp
  have 3: "deleteTodoHandler ?r3 (initial :: 64 word store)
     = (\<lparr>status = 404, content_type = None, resp_body = None\<rparr>, initial)"
    using bad_id_is_rejected [of ?r3 "initial :: 64 word store"] a3 t3 by simp
  from 1 2 3 show ?thesis by blast
qed

section \<open>Deletion\<close>

text \<open>
  C6. For a store that has a todo under \<open>k\<close> and a \<^verbatim>\<open>DELETE\<close> request whose \<^verbatim>\<open>id\<close> reads as
  \<open>k\<close>: the new store is the old one with the key \<open>k\<close> removed from the map and nothing
  else changed, \<open>nextID\<close> included; the response is 204 with no body; the list that
  follows has no entry for \<open>k\<close>, in the map and in its JSON; and the same request again
  is answered 404.
\<close>

theorem delete_removes_that_entry_only:
  fixes s :: "'w::len word store"
  assumes "todos s k = Some t" and "Method r = ''DELETE''"
    and "Atoi (Get (Query r) ''id'') = Some k"
  shows "Delete k s = (True, s\<lparr>todos := (todos s)(k := None)\<rparr>)
       \<and> deleteTodoHandler r s =
           (\<lparr>status = 204, content_type = None, resp_body = None\<rparr>,
            s\<lparr>todos := (todos s)(k := None)\<rparr>)
       \<and> List_todos (snd (deleteTodoHandler r s)) k = None
       \<and> fst (getTodosHandler r' (snd (deleteTodoHandler r s))) =
           \<lparr>status = 200, content_type = Some ''application/json'',
            resp_body = Some (todos_json ((todos s)(k := None)))\<rparr>
       \<and> object_member (todos_json ((todos s)(k := None))) (Itoa (sint k)) = None
       \<and> deleteTodoHandler r (snd (deleteTodoHandler r s)) =
           (\<lparr>status = 404, content_type = None, resp_body = None\<rparr>,
            s\<lparr>todos := (todos s)(k := None)\<rparr>)"
proof -
  have ne: "Get (Query r) ''id'' \<noteq> []" using assms(3) by (rule Atoi_Some_nonempty)
  have h: "deleteTodoHandler r s' =
      (case Delete k s' of
         (False, s1) \<Rightarrow> (WriteHeader 404 new_response, s1)
       | (True, s1) \<Rightarrow> (WriteHeader 204 new_response, s1))"
    for s' :: "'w word store"
    using assms(2,3) ne by (simp add: deleteTodoHandler_def Let_def)
  have 1: "Delete k s = (True, s\<lparr>todos := (todos s)(k := None)\<rparr>)"
    using assms(1) by (simp add: Delete_def)
  have 2: "deleteTodoHandler r s =
           (\<lparr>status = 204, content_type = None, resp_body = None\<rparr>,
            s\<lparr>todos := (todos s)(k := None)\<rparr>)"
    unfolding h 1 by (simp add: WriteHeader_def new_response_def)
  have 3: "List_todos (snd (deleteTodoHandler r s)) k = None"
    unfolding 2 by (simp add: List_todos_def)
  have 4: "fst (getTodosHandler r' (snd (deleteTodoHandler r s))) =
           \<lparr>status = 200, content_type = Some ''application/json'',
            resp_body = Some (todos_json ((todos s)(k := None)))\<rparr>"
    unfolding 2
    by (simp add: getTodosHandler_def List_todos_def Encode_def Header_Set_def new_response_def)
  have 5: "object_member (todos_json ((todos s)(k := None))) (Itoa (sint k)) = None"
    by (simp add: object_member_todos_json)
  have 6: "deleteTodoHandler r (snd (deleteTodoHandler r s)) =
           (\<lparr>status = 404, content_type = None, resp_body = None\<rparr>,
            s\<lparr>todos := (todos s)(k := None)\<rparr>)"
  proof -
    have "deleteTodoHandler r (s\<lparr>todos := (todos s)(k := None)\<rparr>) =
           (\<lparr>status = 404, content_type = None, resp_body = None\<rparr>,
            s\<lparr>todos := (todos s)(k := None)\<rparr>)"
      by (simp add: h Delete_def WriteHeader_def new_response_def)
    then show ?thesis by (simp only: 2 snd_conv)
  qed
  from 1 2 3 4 5 6 show ?thesis by blast
qed

theorem delete_removes_that_entry_only_witness:
  "todos \<lparr>todos = [(1 :: 64 word) \<mapsto> \<lparr>ID = 1, Title = ''a'', Done = False\<rparr>,
                  2 \<mapsto> \<lparr>ID = 2, Title = ''b'', Done = True\<rparr>], nextID = 3\<rparr> 1
     = Some \<lparr>ID = 1, Title = ''a'', Done = False\<rparr>
   \<and> (Atoi (Get ((\<lambda>_. [])(''id'' := [''1''])) ''id'') :: 64 word option) = Some 1
   \<and> deleteTodoHandler \<lparr>Method = ''DELETE'', Query = (\<lambda>_. [])(''id'' := [''1'']), Body = Malformed\<rparr>
       \<lparr>todos = [(1 :: 64 word) \<mapsto> \<lparr>ID = 1, Title = ''a'', Done = False\<rparr>,
                 2 \<mapsto> \<lparr>ID = 2, Title = ''b'', Done = True\<rparr>], nextID = 3\<rparr>
     = (\<lparr>status = 204, content_type = None, resp_body = None\<rparr>,
        \<lparr>todos = [2 \<mapsto> \<lparr>ID = 2, Title = ''b'', Done = True\<rparr>], nextID = 3\<rparr>)"
proof -
  let ?s = "\<lparr>todos = [(1 :: 64 word) \<mapsto> \<lparr>ID = 1, Title = ''a'', Done = False\<rparr>,
                  2 \<mapsto> \<lparr>ID = 2, Title = ''b'', Done = True\<rparr>], nextID = 3\<rparr>"
  let ?r = "\<lparr>Method = ''DELETE'', Query = (\<lambda>_. [])(''id'' := [''1'']), Body = Malformed\<rparr>"
  have p: "todos ?s 1 = Some \<lparr>ID = 1, Title = ''a'', Done = False\<rparr>" by simp
  have m: "Method ?r = ''DELETE''" by simp
  have a: "(Atoi (Get ((\<lambda>_. [])(''id'' := [''1''])) ''id'') :: 64 word option) = Some 1"
    by (simp add: Get_def Atoi_def digit_val_def)
  then have a': "Atoi (Get (Query ?r) ''id'') = Some (1 :: 64 word)" by simp
  from delete_removes_that_entry_only [OF p m a']
  have "deleteTodoHandler ?r ?s =
      (\<lparr>status = 204, content_type = None, resp_body = None\<rparr>, ?s\<lparr>todos := (todos ?s)(1 := None)\<rparr>)"
    by blast
  moreover have "?s\<lparr>todos := (todos ?s)(1 := None)\<rparr>
      = \<lparr>todos = [2 \<mapsto> \<lparr>ID = 2, Title = ''b'', Done = True\<rparr>], nextID = 3\<rparr>"
    by (simp add: fun_upd_twist)
  ultimately have "deleteTodoHandler ?r ?s =
      (\<lparr>status = 204, content_type = None, resp_body = None\<rparr>,
       \<lparr>todos = [2 \<mapsto> \<lparr>ID = 2, Title = ''b'', Done = True\<rparr>], nextID = 3\<rparr>)"
    by (simp only:)
  with p a show ?thesis by blast
qed

section \<open>Listing\<close>

text \<open>
  C7. \<^verbatim>\<open>/todos\<close> is served by \<open>getTodosHandler\<close>, which does not look at the method: every
  request is answered 200 with the JSON of the map, the store unchanged. That JSON is
  an object, not an array. Its member named by the decimal string of an id, a string
  that \<^verbatim>\<open>Atoi\<close> reads back as the id, is the todo of that id: an object with the members
  \<^verbatim>\<open>id\<close>, \<^verbatim>\<open>title\<close> and \<^verbatim>\<open>done\<close>, holding the todo's fields. It has no member for an id
  that is not in the map, and no other members. For the empty map it is the empty object.
\<close>

theorem list_answers_any_method:
  fixes s :: "'w::len word store"
  shows "route ''/todos'' = Some (getTodosHandler :: request \<Rightarrow> 'w word store \<Rightarrow> response \<times> 'w word store)
       \<and> getTodosHandler r s =
           (\<lparr>status = 200, content_type = Some ''application/json'',
             resp_body = Some (todos_json (todos s))\<rparr>, s)
       \<and> (\<exists>f. todos_json (todos s) = JObject f)
       \<and> Atoi (Itoa (sint k)) = Some k
       \<and> (todos s k = None \<longrightarrow> object_member (todos_json (todos s)) (Itoa (sint k)) = None)
       \<and> (todos s k = Some t \<longrightarrow>
            object_member (todos_json (todos s)) (Itoa (sint k)) =
              Some (JObject [''id'' \<mapsto> JNumber (sint (ID t)),
                             ''title'' \<mapsto> JString (Title t),
                             ''done'' \<mapsto> JBool (Done t)]))
       \<and> (\<forall>name v. object_member (todos_json (todos s)) name = Some v \<longrightarrow>
            (\<exists>j u. name = Itoa (sint j) \<and> todos s j = Some u
               \<and> v = JObject [''id'' \<mapsto> JNumber (sint (ID u)),
                              ''title'' \<mapsto> JString (Title u),
                              ''done'' \<mapsto> JBool (Done u)]))
       \<and> (todos s = Map.empty \<longrightarrow>
            getTodosHandler r s =
              (\<lparr>status = 200, content_type = Some ''application/json'',
                resp_body = Some (JObject Map.empty)\<rparr>, s))"
proof -
  have 1: "route ''/todos'' = Some (getTodosHandler :: request \<Rightarrow> 'w word store \<Rightarrow> response \<times> 'w word store)"
    by (simp add: route_def)
  have 2: "getTodosHandler r s =
           (\<lparr>status = 200, content_type = Some ''application/json'',
             resp_body = Some (todos_json (todos s))\<rparr>, s)"
    by (simp add: getTodosHandler_def List_todos_def Encode_def Header_Set_def new_response_def)
  have 3: "\<exists>f. todos_json (todos s) = JObject f"
    by (simp add: todos_json_def)
  have 4: "Atoi (Itoa (sint k)) = Some k"
    by (rule Atoi_Itoa)
  have 5: "object_member (todos_json (todos s)) (Itoa (sint k)) = None" if "todos s k = None"
    using that by (simp add: object_member_todos_json)
  have 6: "object_member (todos_json (todos s)) (Itoa (sint k)) =
              Some (JObject [''id'' \<mapsto> JNumber (sint (ID t)),
                             ''title'' \<mapsto> JString (Title t),
                             ''done'' \<mapsto> JBool (Done t)])" if "todos s k = Some t"
    using that by (simp add: object_member_todos_json todo_json_def)
  have 7: "\<forall>name v. object_member (todos_json (todos s)) name = Some v \<longrightarrow>
            (\<exists>j u. name = Itoa (sint j) \<and> todos s j = Some u
               \<and> v = JObject [''id'' \<mapsto> JNumber (sint (ID u)),
                              ''title'' \<mapsto> JString (Title u),
                              ''done'' \<mapsto> JBool (Done u)])"
  proof (intro allI impI)
    fix name v
    assume "object_member (todos_json (todos s)) name = Some v"
    then obtain j u where "name = Itoa (sint j)" "todos s j = Some u" "v = todo_json u"
      using object_member_todos_json_only by blast
    then show "\<exists>j u. name = Itoa (sint j) \<and> todos s j = Some u
               \<and> v = JObject [''id'' \<mapsto> JNumber (sint (ID u)),
                              ''title'' \<mapsto> JString (Title u),
                              ''done'' \<mapsto> JBool (Done u)]"
      unfolding todo_json_def by blast
  qed
  have 8: "getTodosHandler r s =
              (\<lparr>status = 200, content_type = Some ''application/json'',
                resp_body = Some (JObject Map.empty)\<rparr>, s)" if "todos s = Map.empty"
    unfolding 2 using that by (simp add: todos_json_empty)
  from 1 2 3 4 5 6 7 8 show ?thesis by blast
qed

theorem list_answers_any_method_witness:
  "getTodosHandler \<lparr>Method = ''DELETE'', Query = (\<lambda>_. []), Body = Malformed\<rparr> (initial :: 64 word store)
     = (\<lparr>status = 200, content_type = Some ''application/json'',
         resp_body = Some (JObject Map.empty)\<rparr>, initial)
   \<and> todos \<lparr>todos = [(1 :: 64 word) \<mapsto> \<lparr>ID = 1, Title = ''a'', Done = False\<rparr>], nextID = 2\<rparr> 1
     = Some \<lparr>ID = 1, Title = ''a'', Done = False\<rparr>
   \<and> object_member
        (todos_json (todos \<lparr>todos = [(1 :: 64 word) \<mapsto> \<lparr>ID = 1, Title = ''a'', Done = False\<rparr>], nextID = 2\<rparr>))
        ''1''
     = Some (JObject [''id'' \<mapsto> JNumber 1, ''title'' \<mapsto> JString ''a'', ''done'' \<mapsto> JBool False])
   \<and> todos \<lparr>todos = [(1 :: 64 word) \<mapsto> \<lparr>ID = 1, Title = ''a'', Done = False\<rparr>], nextID = 2\<rparr> 2 = None
   \<and> object_member
        (todos_json (todos \<lparr>todos = [(1 :: 64 word) \<mapsto> \<lparr>ID = 1, Title = ''a'', Done = False\<rparr>], nextID = 2\<rparr>))
        ''2''
     = None"
proof -
  let ?r = "\<lparr>Method = ''DELETE'', Query = (\<lambda>_. []), Body = Malformed\<rparr>"
  let ?t = "\<lparr>ID = (1 :: 64 word), Title = ''a'', Done = False\<rparr>"
  let ?s = "\<lparr>todos = [(1 :: 64 word) \<mapsto> ?t], nextID = 2\<rparr>"
  have e: "todos (initial :: 64 word store) = Map.empty" by (simp add: initial_def)
  have 1: "getTodosHandler ?r (initial :: 64 word store)
     = (\<lparr>status = 200, content_type = Some ''application/json'',
         resp_body = Some (JObject Map.empty)\<rparr>, initial)"
    using list_answers_any_method [of ?r "initial :: 64 word store"] e by blast
  have p1: "todos ?s 1 = Some ?t" by simp
  have p2: "todos ?s 2 = None" by simp
  have i1: "Itoa (sint (1 :: 64 word)) = ''1''"
    by (simp add: Itoa_def decimal.simps digit_char_def)
  have i2: "Itoa (sint (2 :: 64 word)) = ''2''"
    by (simp add: Itoa_def decimal.simps digit_char_def)
  have "object_member (todos_json (todos ?s)) (Itoa (sint (1 :: 64 word))) =
      Some (JObject [''id'' \<mapsto> JNumber (sint (ID ?t)), ''title'' \<mapsto> JString (Title ?t),
                     ''done'' \<mapsto> JBool (Done ?t)])"
    using list_answers_any_method [of ?r ?s 1 ?t] p1 by blast
  then have 2: "object_member (todos_json (todos ?s)) ''1''
     = Some (JObject [''id'' \<mapsto> JNumber 1, ''title'' \<mapsto> JString ''a'', ''done'' \<mapsto> JBool False])"
    unfolding i1 by simp
  have "object_member (todos_json (todos ?s)) (Itoa (sint (2 :: 64 word))) = None"
    using list_answers_any_method [of ?r ?s 2] p2 by blast
  then have 3: "object_member (todos_json (todos ?s)) ''2'' = None"
    unfolding i2 .
  from 1 p1 2 p2 3 show ?thesis by blast
qed

text \<open>
  C8 asks for 405, no body and no access to the store for a wrong method on every
  route. The routes for create, update and delete do that
  (\<open>guarded_routes_reject_other_methods\<close>). \<^verbatim>\<open>/todos\<close> does not: a \<^verbatim>\<open>POST\<close> to it is
  answered 200 with the list read from the store.
\<close>

theorem list_has_no_method_check:
  "route ''/todos'' = Some (getTodosHandler :: request \<Rightarrow> 64 word store \<Rightarrow> response \<times> 64 word store)
   \<and> getTodosHandler \<lparr>Method = ''POST'', Query = (\<lambda>_. []), Body = Malformed\<rparr>
        \<lparr>todos = [(1 :: 64 word) \<mapsto> \<lparr>ID = 1, Title = ''a'', Done = False\<rparr>], nextID = 2\<rparr>
     = (\<lparr>status = 200, content_type = Some ''application/json'',
         resp_body = Some (todos_json [(1 :: 64 word) \<mapsto> \<lparr>ID = 1, Title = ''a'', Done = False\<rparr>])\<rparr>,
        \<lparr>todos = [1 \<mapsto> \<lparr>ID = 1, Title = ''a'', Done = False\<rparr>], nextID = 2\<rparr>)
   \<and> status (fst (getTodosHandler \<lparr>Method = ''POST'', Query = (\<lambda>_. []), Body = Malformed\<rparr>
        (initial :: 64 word store))) \<noteq> 405
   \<and> resp_body (fst (getTodosHandler \<lparr>Method = ''POST'', Query = (\<lambda>_. []), Body = Malformed\<rparr>
        (initial :: 64 word store))) = Some (JObject Map.empty)"
  by (simp add: route_def getTodosHandler_def List_todos_def Encode_def Header_Set_def
      new_response_def initial_def todos_json_empty)


end
